theory Spec2Isabelle
  imports Main "HOL-Library.Word"
begin

section \<open>The chat widget of AItest.tsx as a state machine\<close>

text \<open>
  The repository is one React component, \<^verbatim>\<open>AItest\<close>. Its \<^verbatim>\<open>useState\<close> cells become
  the fields of a record, every event handler becomes a function from state to state, and
  the two collaborators the component talks to (the browser's \<^verbatim>\<open>localStorage\<close> slot and
  the generation API) become two more fields: the stored key and the list of requests that
  have been issued and not yet answered.

  A JavaScript string is a sequence of UTF-16 code units: \<^verbatim>\<open>length\<close>, \<^verbatim>\<open>slice\<close> and
  \<^verbatim>\<open>trim\<close> count and cut code units, so a string is a list of 16-bit words here. The
  literals of the source are written out as their code units.
\<close>

subsection \<open>Strings\<close>

type_synonym jsstring = "16 word list"

text \<open>
  \<^verbatim>\<open>String.prototype.trim\<close> strips the code units that ECMAScript calls WhiteSpace or
  LineTerminator from both ends.
\<close>

definition is_ws :: "16 word \<Rightarrow> bool" where
  "is_ws c \<longleftrightarrow>
     c = 0x9 \<or> c = 0xA \<or> c = 0xB \<or> c = 0xC \<or> c = 0xD \<or> c = 0x20 \<or> c = 0xA0 \<or>
     c = 0x1680 \<or> (0x2000 \<le> c \<and> c \<le> 0x200A) \<or> c = 0x2028 \<or> c = 0x2029 \<or>
     c = 0x202F \<or> c = 0x205F \<or> c = 0x3000 \<or> c = 0xFEFF"

definition trim :: "jsstring \<Rightarrow> jsstring" where
  "trim s = rev (dropWhile is_ws (rev (dropWhile is_ws s)))"

subsection \<open>Messages, personas, collaborators\<close>

datatype msg_role = User | Model

record Part =
  text_p :: jsstring

record ChatMsg =
  role :: msg_role
  parts :: "Part list"

record persona =
  id_r :: jsstring
  name_r :: jsstring
  prompt :: jsstring

definition roles :: "persona list" where
  "roles =
    [\<lparr>id_r = [0x63, 0x6f, 0x66, 0x66, 0x65, 0x65],
      name_r = [0x2615, 0x20, 0x5496, 0x5561, 0x9054, 0x4eba],
      prompt = [0x4f60, 0x662f, 0x4e00, 0x4f4d, 0x53f0, 0x5317, 0x5496, 0x5561, 0x9054,
        0x4eba, 0xff0c, 0x719f, 0x6089, 0x5404, 0x5bb6, 0x98a8, 0x683c, 0x8207, 0x6c23,
        0x6c1b, 0xff0c, 0x56de, 0x7b54, 0x6642, 0x8acb, 0x7528, 0x5c08, 0x696d, 0x4f46,
        0x6eab, 0x548c, 0x7684, 0x8a9e, 0x6c23, 0x3002]\<rparr>,
     \<lparr>id_r = [0x6d, 0x65, 0x6e, 0x74, 0x6f, 0x72],
      name_r = [0xd83d, 0xdcbc, 0x20, 0x9762, 0x8a66, 0x9867, 0x554f],
      prompt = [0x4f60, 0x662f, 0x4e00, 0x4f4d, 0x9762, 0x8a66, 0x9867, 0x554f, 0xff0c,
        0x64c5, 0x9577, 0x7d66, 0x51fa, 0x5177, 0x9ad4, 0x5efa, 0x8b70, 0xff0c, 0x4e26,
        0x6559, 0x5c0e, 0x6211, 0x5982, 0x4f55, 0x8b8a, 0x5f97, 0x66f4, 0x597d, 0x3002]\<rparr>,
     \<lparr>id_r = [0x63, 0x6f, 0x61, 0x63, 0x68],
      name_r = [0xd83e, 0xddd8, 0x200d, 0x2640, 0xfe0f, 0x20, 0x4eba, 0x751f, 0x6559, 0x7df4],
      prompt = [0x4f60, 0x662f, 0x6eab, 0x6696, 0x7684, 0x6559, 0x7df4, 0xff0c, 0x56de,
        0x7b54, 0x6642, 0x8981, 0x9069, 0x7576, 0x7d66, 0x4e88, 0x60c5, 0x7dd2, 0x9f13,
        0x52f5, 0x8207, 0x652f, 0x6301, 0x3002]\<rparr>]"

text \<open>The greeting of the welcome effect, the missing-key message and the placeholder reply.\<close>

definition greeting :: ChatMsg where
  "greeting = \<lparr>role = Model, parts = [\<lparr>text_p =
     [0xd83d, 0xdc4b, 0x20, 0x9019, 0x88e1, 0x662f, 0x20, 0x47, 0x65, 0x6d, 0x69, 0x6e, 0x69,
      0x20, 0x5c0f, 0x5e6b, 0x624b, 0xff0c, 0x6709, 0x4ec0, 0x9ebc, 0x60f3, 0x804a, 0x7684,
      0xff1f]\<rparr>]\<rparr>"

definition key_error :: jsstring where
  "key_error = [0x8acb, 0x5148, 0x8f38, 0x5165, 0x6709, 0x6548, 0x7684, 0x20, 0x47, 0x65,
     0x6d, 0x69, 0x6e, 0x69, 0x20, 0x41, 0x50, 0x49, 0x20, 0x4b, 0x65, 0x79]"

definition no_content :: jsstring where
  "no_content = [0x5b, 0x4e, 0x6f, 0x20, 0x63, 0x6f, 0x6e, 0x74, 0x65, 0x6e, 0x74, 0x5d]"

text \<open>
  The client of the generation API is built from the key; the constructor belongs to the
  SDK, so it is a parameter of the model: \<open>None\<close> is the constructor throwing. What the
  API answers is a parameter too: it resolves with a response whose \<^verbatim>\<open>text\<close> may be
  undefined, or it rejects with a thrown value, of which the handler reads the
  \<^verbatim>\<open>message\<close> property (possibly absent) and the string form \<^verbatim>\<open>String(err)\<close>.
\<close>

datatype client = Client (client_key: jsstring)

type_synonym constructor = "jsstring \<Rightarrow> client option"

record request =
  req_model :: jsstring
  contents :: "ChatMsg list"

datatype thrown = Thrown (message: "jsstring option") (string_form: jsstring)

datatype api_outcome = Resolved "jsstring option" | Rejected thrown

text \<open>The closure of the reveal interval: the text, the cursor \<^verbatim>\<open>i\<close>, and whether
  \<^verbatim>\<open>clearInterval\<close> has been called on it.\<close>

record interval =
  itv_text :: jsstring
  itv_i :: nat
  itv_cleared :: bool

subsection \<open>Component state\<close>

record state =
  model :: jsstring
  history :: "ChatMsg list"
  input :: jsstring
  apiKey :: jsstring
  displayedText :: jsstring
  rememberKey :: bool
  loading :: bool
  error :: jsstring
  role_st :: persona
  storage :: "jsstring option"
  pending :: "request list"
  timer :: "interval option"

text \<open>
  \<open>storage\<close> is the \<^verbatim>\<open>gemini_api_key\<close> slot of \<^verbatim>\<open>localStorage\<close>, \<open>pending\<close> the
  requests in flight, \<open>timer\<close> the interval of the reveal effect that is currently
  installed. The theme and the scroll position only drive presentation and are left out.

  A handler is a closure of the render that created it: what it reads (\<^verbatim>\<open>loading\<close>,
  \<^verbatim>\<open>history\<close>, \<^verbatim>\<open>input\<close>, \<^verbatim>\<open>role\<close>, \<^verbatim>\<open>ai\<close>, \<^verbatim>\<open>model\<close>) is the state of
  that render, while the setters it calls act on the state of the moment. The two can
  differ when \<^verbatim>\<open>sendMessage\<close> is called again before the component has rendered again.
\<close>

definition ai :: "constructor \<Rightarrow> state \<Rightarrow> client option" where
  "ai new_GoogleGenAI s = (if apiKey s \<noteq> [] then new_GoogleGenAI (apiKey s) else None)"

subsection \<open>sendMessage\<close>

definition compose :: "persona \<Rightarrow> jsstring \<Rightarrow> jsstring" where
  "compose r t = prompt r @ [0xA, 0xA] @ trim t"

definition user_msg :: "jsstring \<Rightarrow> ChatMsg" where
  "user_msg t = \<lparr>role = User, parts = [\<lparr>text_p = t\<rparr>]\<rparr>"

definition model_msg :: "jsstring \<Rightarrow> ChatMsg" where
  "model_msg t = \<lparr>role = Model, parts = [\<lparr>text_p = t\<rparr>]\<rparr>"

text \<open>
  The part of \<^verbatim>\<open>sendMessage\<close> that runs before the \<^verbatim>\<open>await\<close>. \<open>r\<close> is the state of
  the render whose closure is called and \<open>s\<close> the state at the time of the call; called
  from the latest render, they are the same.
\<close>

definition sendMessage :: "constructor \<Rightarrow> jsstring option \<Rightarrow> state \<Rightarrow> state \<Rightarrow> state" where
  "sendMessage new_GoogleGenAI msg r s =
     (let content = compose (role_st r) (case msg of None \<Rightarrow> input r | Some m \<Rightarrow> m) in
      if content = [] \<or> loading r then s
      else case ai new_GoogleGenAI r of
        None \<Rightarrow> s\<lparr>error := key_error\<rparr>
      | Some c \<Rightarrow>
          let newHistory = history r @ [user_msg content] in
          s\<lparr>error := [], loading := True, history := newHistory, input := [],
            pending := pending s @ [\<lparr>req_model = model r, contents = newHistory\<rparr>]\<rparr>)"

text \<open>
  The part after the \<^verbatim>\<open>await\<close>: the \<^verbatim>\<open>try\<close> body on a response, the \<^verbatim>\<open>catch\<close> on a
  thrown value, and the \<^verbatim>\<open>finally\<close>. The answered request leaves the pending list.
\<close>

definition reply_text :: "jsstring option \<Rightarrow> jsstring" where
  "reply_text t = (case t of None \<Rightarrow> no_content | Some r \<Rightarrow> if r = [] then no_content else r)"

definition error_text :: "thrown \<Rightarrow> jsstring" where
  "error_text err =
     (case message err of
        None \<Rightarrow> string_form err
      | Some m \<Rightarrow> if m = [] then string_form err else m)"

definition sendMessage_settled :: "api_outcome \<Rightarrow> state \<Rightarrow> state" where
  "sendMessage_settled out s =
     (case out of
        Resolved t \<Rightarrow>
          s\<lparr>history := history s @ [model_msg (reply_text t)], loading := False,
            pending := tl (pending s)\<rparr>
      | Rejected err \<Rightarrow>
          s\<lparr>error := error_text err, loading := False, pending := tl (pending s)\<rparr>)"

text \<open>The \<^verbatim>\<open>disabled\<close> attribute of the submit button.\<close>

definition submit_disabled :: "state \<Rightarrow> bool" where
  "submit_disabled s \<longleftrightarrow> loading s \<or> trim (input s) = [] \<or> apiKey s = []"

subsection \<open>Key field and remember checkbox\<close>

definition onKeyChange :: "jsstring \<Rightarrow> state \<Rightarrow> state" where
  "onKeyChange v s =
     (let s1 = s\<lparr>apiKey := v\<rparr> in
      if rememberKey s then s1\<lparr>storage := Some v\<rparr> else s1)"

definition onRememberChange :: "bool \<Rightarrow> state \<Rightarrow> state" where
  "onRememberChange checked s =
     (let s1 = s\<lparr>rememberKey := checked\<rparr> in
      if \<not> checked then s1\<lparr>storage := None\<rparr>
      else if apiKey s \<noteq> [] then s1\<lparr>storage := Some (apiKey s)\<rparr>
      else s1)"

subsection \<open>Effects\<close>

text \<open>
  Dereferencing \<^verbatim>\<open>undefined\<close> throws a \<^verbatim>\<open>TypeError\<close>; inside an effect or during
  render this unmounts the component, so a run of the machine ends there.
\<close>

datatype js_error = TypeError

text \<open>The effect that loads the saved key, and the welcome effect.\<close>

definition load_key :: "state \<Rightarrow> state" where
  "load_key s =
     (case storage s of
        None \<Rightarrow> s
      | Some saved \<Rightarrow> if saved \<noteq> [] then s\<lparr>apiKey := saved\<rparr> else s)"

definition welcome_effect :: "jsstring \<Rightarrow> state \<Rightarrow> state" where
  "welcome_effect starter s =
     (let s1 = s\<lparr>history := [greeting]\<rparr> in
      if starter \<noteq> [] then s1\<lparr>input := starter\<rparr> else s1)"

text \<open>
  The reveal effect. Its cleanup clears the interval of the previous run; then it returns
  at once while loading, and otherwise looks at the last message: \<^verbatim>\<open>history[-1]\<close> of
  an empty history is \<^verbatim>\<open>undefined\<close> and \<^verbatim>\<open>last?.role\<close> tolerates it, but
  \<^verbatim>\<open>last.parts[0].text\<close> throws when \<^verbatim>\<open>parts\<close> is empty.
\<close>

definition reveal_effect :: "state \<Rightarrow> js_error + state" where
  "reveal_effect s =
     (let s0 = s\<lparr>timer := None\<rparr> in
      if loading s then Inr s0
      else if history s = [] then Inr s0
      else let l = last (history s) in
        if role l = Model then
          (case parts l of
             [] \<Rightarrow> Inl TypeError
           | p # _ \<Rightarrow> Inr (s\<lparr>timer := Some \<lparr>itv_text = text_p p, itv_i = 0, itv_cleared = False\<rparr>\<rparr>))
        else Inr s0)"

text \<open>One firing of the interval callback. A cleared interval does not fire.\<close>

definition tick :: "state \<Rightarrow> state" where
  "tick s =
     (case timer s of
        None \<Rightarrow> s
      | Some t \<Rightarrow>
          if itv_cleared t then s
          else s\<lparr>displayedText := take (itv_i t) (itv_text t),
                 timer := Some (t\<lparr>itv_i := itv_i t + 1,
                                  itv_cleared := (length (itv_text t) < itv_i t + 1)\<rparr>)\<rparr>)"

fun ticks :: "nat \<Rightarrow> state \<Rightarrow> state" where
  "ticks 0 s = s"
| "ticks (Suc k) s = ticks k (tick s)"

subsection \<open>Mounting and running the component\<close>

text \<open>The values given to \<^verbatim>\<open>useState\<close>, with the storage slot as the browser holds it.\<close>

definition initial :: "jsstring \<Rightarrow> jsstring option \<Rightarrow> state" where
  "initial defaultModel stored =
     \<lparr>model = defaultModel, history = [], input = [], apiKey = [], displayedText = [],
      rememberKey = True, loading = False, error = [], role_st = roles ! 0,
      storage = stored, pending = [], timer = None\<rparr>"

text \<open>
  Mounting runs the effects of the first render, whose state updates cause a second
  render; the history has changed by then, so the reveal effect runs on the result.
\<close>

definition mount :: "jsstring \<Rightarrow> jsstring \<Rightarrow> jsstring option \<Rightarrow> js_error + state" where
  "mount defaultModel starter stored =
     reveal_effect (welcome_effect starter (load_key (initial defaultModel stored)))"

text \<open>
  The role selector looks the chosen id up with \<^verbatim>\<open>roles.find(...)!\<close>; an id outside
  the table would store \<^verbatim>\<open>undefined\<close> and the next render would throw on
  \<^verbatim>\<open>role.id\<close>.
\<close>

definition onRoleChange :: "jsstring \<Rightarrow> state \<Rightarrow> js_error + state" where
  "onRoleChange v s =
     (case find (\<lambda>r. id_r r = v) roles of
        None \<Rightarrow> Inl TypeError
      | Some r \<Rightarrow> Inr (s\<lparr>role_st := r\<rparr>))"

datatype event =
    Send "jsstring option"
  | Render
  | Settle api_outcome
  | SetInput jsstring
  | SetModel jsstring
  | SetRole jsstring
  | KeyChange jsstring
  | RememberChange bool
  | Tick
  | StarterChanged jsstring

text \<open>
  The component is a pair: the state of the latest render, which the closures read, and
  the current state. Rendering makes the first equal to the second, after the reveal
  effect has run if one of its dependencies, \<^verbatim>\<open>history\<close> or \<^verbatim>\<open>loading\<close>, differs
  from the previous render.
\<close>

definition render :: "state \<times> state \<Rightarrow> js_error + state \<times> state" where
  "render c =
     (let r = fst c; s = snd c in
      case (if loading s \<noteq> loading r \<or> history s \<noteq> history r then reveal_effect s
            else Inr s) of
        Inl e \<Rightarrow> Inl e
      | Inr s' \<Rightarrow> Inr (s', s'))"

text \<open>
  One event. A \<open>Send\<close> is a call of \<^verbatim>\<open>sendMessage\<close> as the latest render closed it;
  the render that its state updates ask for is the separate event \<open>Render\<close>, so that a run
  can hold several calls from one render. The other handlers are followed by their
  render at once. The API settles only a request that is pending, and a change of the
  \<^verbatim>\<open>starter\<close> property runs the welcome effect, which sets a new history array.
\<close>

fun step :: "constructor \<Rightarrow> event \<Rightarrow> state \<times> state \<Rightarrow> js_error + state \<times> state" where
  "step new (Send m) (r, s) = Inr (r, sendMessage new m r s)"
| "step new Render (r, s) = render (r, s)"
| "step new (Settle out) (r, s) =
     (if pending s = [] then Inr (r, s) else render (r, sendMessage_settled out s))"
| "step new (SetInput v) (r, s) = render (r, s\<lparr>input := v\<rparr>)"
| "step new (SetModel v) (r, s) = render (r, s\<lparr>model := v\<rparr>)"
| "step new (SetRole v) (r, s) =
     (case onRoleChange v s of Inl e \<Rightarrow> Inl e | Inr s' \<Rightarrow> render (r, s'))"
| "step new (KeyChange v) (r, s) = render (r, onKeyChange v s)"
| "step new (RememberChange b) (r, s) = render (r, onRememberChange b s)"
| "step new Tick (r, s) = render (r, tick s)"
| "step new (StarterChanged v) (r, s) =
     (case reveal_effect (welcome_effect v s) of Inl e \<Rightarrow> Inl e | Inr s' \<Rightarrow> Inr (s', s'))"

fun run :: "constructor \<Rightarrow> event list \<Rightarrow> state \<times> state \<Rightarrow> js_error + state \<times> state" where
  "run new [] c = Inr c"
| "run new (e # es) c =
     (case step new e c of Inl x \<Rightarrow> Inl x | Inr c' \<Rightarrow> run new es c')"

text \<open>One send from the latest render whose call resolves, as a pair of the argument and
  the response text.\<close>

definition exchange :: "constructor \<Rightarrow> jsstring option \<times> jsstring option \<Rightarrow> state \<Rightarrow> state" where
  "exchange new x s = sendMessage_settled (Resolved (snd x)) (sendMessage new (fst x) s s)"

subsection \<open>A concrete session\<close>

text \<open>A constructor that accepts every key, a one-letter key, and the widget mounted with
  an empty store and no starter text, after that key has been typed.\<close>

definition accept_all :: constructor where
  "accept_all k = Some (Client k)"

definition idle :: state where
  "idle = onKeyChange [0x6b] (welcome_effect [] (load_key (initial [0x67] None)))"

definition blank_idle :: state where
  "blank_idle = idle\<lparr>input := [0x20, 0x20]\<rparr>"

definition keyless :: state where
  "keyless = onKeyChange [] idle"

definition busy :: state where
  "busy = sendMessage accept_all (Some [0x48, 0x69]) idle idle"

text \<open>The key box emptied while that request is pending.\<close>

definition busy_keyless :: state where
  "busy_keyless = onKeyChange [] busy"

text \<open>The widget right after mounting, a short session on it, and the state it ends in.\<close>

definition mounted :: state where
  "mounted = (welcome_effect [] (load_key (initial [0x67] None)))
     \<lparr>timer := Some \<lparr>itv_text = text_p (hd (parts greeting)), itv_i = 0, itv_cleared = False\<rparr>\<rparr>"

definition session :: "event list" where
  "session = [Tick, KeyChange [0x6b], Send (Some [0x48, 0x69]), Send None, Render,
     Settle (Resolved (Some [0x4f, 0x4b])), Tick, Tick]"

definition session_end :: "state \<times> state" where
  "session_end =
     (case run accept_all session (mounted, mounted) of
        Inr c \<Rightarrow> c
      | Inl e \<Rightarrow> (mounted, mounted))"



text \<open>A reply that arrives while the greeting is still being revealed, and the state in
  which the reveal of that reply starts.\<close>

definition early_reply :: "event list" where
  "early_reply = [Tick, Tick, Tick, KeyChange [0x6b], Send (Some [0x48, 0x69]), Render,
     Settle (Resolved (Some [0x4f]))]"

definition reveal_start :: state where
  "reveal_start =
     (case run accept_all early_reply (mounted, mounted) of
        Inr c \<Rightarrow> snd c
      | Inl e \<Rightarrow> mounted)"

text \<open>One answered exchange on the idle widget.\<close>

definition answered :: state where
  "answered = exchange accept_all (Some [0x48, 0x69], Some [0x4f, 0x4b]) idle"

text \<open>The remember box unticked on the idle widget, and more typing after that.\<close>

definition forgetful :: state where
  "forgetful = onRememberChange False idle"

definition retyping :: "event list" where
  "retyping = [KeyChange [0x7a], SetInput [0x48], KeyChange [0x79, 0x7a]]"

text \<open>What every reachable state satisfies: one part per message.\<close>

definition wf :: "state \<Rightarrow> bool" where
  "wf s \<longleftrightarrow> list_all (\<lambda>m. length (parts m) = 1) (history s)"

section \<open>Properties\<close>

subsection \<open>Helper facts\<close>

lemma compose_nonempty: "compose r t \<noteq> []"
  by (simp add: compose_def)

lemma sendMessage_loading: "loading r \<Longrightarrow> sendMessage new msg r s = s"
  by (simp add: sendMessage_def Let_def)

lemma sendMessage_no_ai:
  "\<not> loading r \<Longrightarrow> ai new r = None \<Longrightarrow> sendMessage new msg r s = s\<lparr>error := key_error\<rparr>"
  by (simp add: sendMessage_def Let_def compose_nonempty)

lemma sendMessage_dispatch:
  "\<not> loading r \<Longrightarrow> ai new r = Some c \<Longrightarrow>
   sendMessage new msg r s =
     s\<lparr>error := [], loading := True,
       history := history r @ [user_msg (compose (role_st r) (case msg of None \<Rightarrow> input r | Some m \<Rightarrow> m))],
       input := [],
       pending := pending s @ [\<lparr>req_model = model r,
         contents = history r @ [user_msg (compose (role_st r) (case msg of None \<Rightarrow> input r | Some m \<Rightarrow> m))]\<rparr>]\<rparr>"
  by (simp add: sendMessage_def Let_def compose_nonempty)

text \<open>
  What \<open>trim\<close> computes: the input is a run of white space, the trimmed text, and another
  run of white space, and the trimmed text neither starts nor ends with white space.
\<close>

lemma trim_decomposition:
  "\<exists>a b. t = a @ trim t @ b \<and> list_all is_ws a \<and> list_all is_ws b"
proof -
  let ?m = "dropWhile is_ws t"
  have "t = takeWhile is_ws t @ ?m" by simp
  moreover have "?m = trim t @ rev (takeWhile is_ws (rev ?m))"
  proof -
    have "rev (takeWhile is_ws (rev ?m) @ dropWhile is_ws (rev ?m)) = ?m"
      by (simp only: takeWhile_dropWhile_id rev_rev_ident)
    then have "rev (dropWhile is_ws (rev ?m)) @ rev (takeWhile is_ws (rev ?m)) = ?m"
      by (simp only: rev_append)
    then show ?thesis by (simp add: trim_def)
  qed
  moreover have "list_all is_ws (takeWhile is_ws t)"
    by (simp add: list_all_iff) (meson set_takeWhileD)
  moreover have "list_all is_ws (rev (takeWhile is_ws (rev ?m)))"
    by (simp add: list_all_iff) (meson set_takeWhileD)
  ultimately show ?thesis by metis
qed

lemma trim_ends:
  "trim t \<noteq> [] \<Longrightarrow> \<not> is_ws (hd (trim t)) \<and> \<not> is_ws (last (trim t))"
proof -
  let ?m = "dropWhile is_ws t"
  let ?r = "dropWhile is_ws (rev ?m)"
  assume "trim t \<noteq> []"
  then have r: "?r \<noteq> []" by (simp add: trim_def)
  have m: "?m \<noteq> []"
  proof
    assume "?m = []"
    with r show False by simp
  qed
  have "last (trim t) = hd ?r" using r by (simp add: trim_def last_rev)
  moreover have "\<not> is_ws (hd ?r)" using r by (rule hd_dropWhile)
  moreover have "hd (trim t) = last ?r" using r by (simp add: trim_def hd_rev)
  moreover have "last ?r = last (rev ?m)"
    using r by (metis last_appendR takeWhile_dropWhile_id)
  moreover have "last (rev ?m) = hd ?m" using m by (simp add: last_rev)
  moreover have "\<not> is_ws (hd ?m)" using m by (rule hd_dropWhile)
  ultimately show ?thesis by simp
qed

lemmas session_defs =
  idle_def blank_idle_def onKeyChange_def welcome_effect_def load_key_def initial_def
  accept_all_def ai_def Let_def

lemma idle_fields:
  "\<not> loading idle" "ai accept_all idle = Some (Client [0x6b])" "history idle = [greeting]"
  "pending idle = []" "input idle = []" "model idle = [0x67]" "role_st idle = roles ! 0"
  "error idle = []" "apiKey idle = [0x6b]" "storage idle = Some [0x6b]" "rememberKey idle"
  by (simp_all add: session_defs)

lemma reveal_effect_Inr: "reveal_effect s = Inr s' \<Longrightarrow> \<exists>tm. s' = s\<lparr>timer := tm\<rparr>"
  by (auto simp: reveal_effect_def Let_def split: if_splits list.splits)

lemma reveal_effect_wf: "wf s \<Longrightarrow> \<exists>s'. reveal_effect s = Inr s'"
proof -
  assume w: "wf s"
  show ?thesis
  proof (cases "\<not> loading s \<and> history s \<noteq> [] \<and> role (last (history s)) = Model")
    case True
    then have "last (history s) \<in> set (history s)" by simp
    with w have "length (parts (last (history s))) = 1"
      by (simp add: wf_def list_all_iff)
    then obtain p where "parts (last (history s)) = [p]"
      by (cases "parts (last (history s))") auto
    with True show ?thesis by (simp add: reveal_effect_def Let_def)
  next
    case False
    then show ?thesis by (auto simp: reveal_effect_def Let_def)
  qed
qed

lemma wf_timer [simp]:
  "wf (s\<lparr>timer := tm\<rparr>) = wf s" "wf (s\<lparr>input := v\<rparr>) = wf s" "wf (s\<lparr>model := v\<rparr>) = wf s"
  by (simp_all add: wf_def)

lemma reveal_effect_keeps_wf: "wf s \<Longrightarrow> reveal_effect s = Inr s' \<Longrightarrow> wf s'"
  by (auto dest: reveal_effect_Inr)

lemma sendMessage_wf: "wf r \<Longrightarrow> wf s \<Longrightarrow> wf (sendMessage new m r s)"
proof -
  assume w: "wf r" "wf s"
  show ?thesis
  proof (cases "loading r")
    case True
    with w show ?thesis by (simp add: sendMessage_loading)
  next
    case False
    show ?thesis
    proof (cases "ai new r")
      case None
      with False w show ?thesis by (simp add: sendMessage_no_ai wf_def)
    next
      case (Some c)
      with False w show ?thesis
        by (simp add: sendMessage_dispatch wf_def user_msg_def)
    qed
  qed
qed

lemma settled_wf: "wf s \<Longrightarrow> wf (sendMessage_settled out s)"
  by (cases out) (auto simp: sendMessage_settled_def wf_def model_msg_def)

lemma tick_wf: "wf s \<Longrightarrow> wf (tick s)"
  by (simp add: tick_def wf_def split: option.splits)

lemma welcome_wf: "wf (welcome_effect v s)"
  by (simp add: welcome_effect_def wf_def Let_def greeting_def)

lemma onKeyChange_wf: "wf s \<Longrightarrow> wf (onKeyChange v s)"
  by (simp add: onKeyChange_def wf_def Let_def)

lemma onRememberChange_wf: "wf s \<Longrightarrow> wf (onRememberChange b s)"
  by (simp add: onRememberChange_def wf_def Let_def)

lemma onRoleChange_wf: "wf s \<Longrightarrow> onRoleChange v s = Inr s' \<Longrightarrow> wf s'"
  by (auto simp: onRoleChange_def wf_def split: option.splits)

lemma render_Inr:
  "render (r, s) = Inr c \<Longrightarrow> \<exists>tm. c = (s\<lparr>timer := tm\<rparr>, s\<lparr>timer := tm\<rparr>) \<or> c = (s, s)"
  by (auto simp: render_def Let_def split: if_splits sum.splits dest: reveal_effect_Inr)

lemma render_wf: "wf s \<Longrightarrow> render (r, s) = Inr c \<Longrightarrow> wf (fst c) \<and> wf (snd c)"
  by (auto dest: render_Inr)

lemma render_ok: "wf s \<Longrightarrow> \<exists>a b. render (r, s) = Inr (a, b)"
  using reveal_effect_wf [of s] by (auto simp: render_def Let_def)

lemma tick_cleared:
  "timer s = Some t \<Longrightarrow> itv_cleared t \<Longrightarrow> ticks k s = s"
  by (induction k) (simp_all add: tick_def)

lemma ticks_running:
  "timer s = Some \<lparr>itv_text = t, itv_i = c, itv_cleared = False\<rparr> \<Longrightarrow> c \<le> length t \<Longrightarrow>
   displayedText (ticks (Suc k) s) = take (c + k) t \<and>
   timer (ticks (Suc k) s) =
     Some \<lparr>itv_text = t, itv_i = min (c + Suc k) (length t + 1), itv_cleared = (length t < c + Suc k)\<rparr>"
proof (induction k arbitrary: s c)
  case 0
  then show ?case by (simp add: tick_def)
next
  case (Suc k)
  let ?s1 = "tick s"
  have d: "displayedText ?s1 = take c t"
    and tm: "timer ?s1 = Some \<lparr>itv_text = t, itv_i = c + 1, itv_cleared = (length t < c + 1)\<rparr>"
    using Suc.prems by (simp_all add: tick_def)
  show ?case
  proof (cases "c < length t")
    case True
    with tm have "timer ?s1 = Some \<lparr>itv_text = t, itv_i = Suc c, itv_cleared = False\<rparr>"
      by simp
    from Suc.IH [OF this] True show ?thesis by simp
  next
    case False
    with Suc.prems have c: "c = length t" by simp
    with tm have "timer ?s1 = Some \<lparr>itv_text = t, itv_i = Suc c, itv_cleared = True\<rparr>"
      by simp
    then have "ticks (Suc k) ?s1 = ?s1"
      by (rule tick_cleared) simp
    then have "ticks (Suc (Suc k)) s = ?s1" by simp
    with d tm c show ?thesis by simp
  qed
qed

lemma step_wf:
  "wf r \<Longrightarrow> wf s \<Longrightarrow> step new e (r, s) = Inr c \<Longrightarrow> wf (fst c) \<and> wf (snd c)"
proof (cases e)
  case (Send m)
  assume "wf r" "wf s" "step new e (r, s) = Inr c"
  with Send show ?thesis using sendMessage_wf [of r s new m] by auto
next
  case (Settle out)
  assume "wf r" "wf s" "step new e (r, s) = Inr c"
  with Settle show ?thesis
    using settled_wf [of s out] by (auto split: if_splits dest: render_wf)
next
  case (SetRole v)
  assume "wf r" "wf s" "step new e (r, s) = Inr c"
  with SetRole show ?thesis
    by (auto split: sum.splits dest: render_wf onRoleChange_wf)
next
  case (StarterChanged v)
  assume "wf r" "wf s" "step new e (r, s) = Inr c"
  with StarterChanged show ?thesis
    using welcome_wf [of v s] by (auto split: sum.splits dest: reveal_effect_keeps_wf)
qed (auto dest!: render_wf [rotated] simp: onKeyChange_wf onRememberChange_wf tick_wf)

lemma run_wf:
  "wf (fst c) \<Longrightarrow> wf (snd c) \<Longrightarrow> run new es c = Inr c' \<Longrightarrow> wf (fst c') \<and> wf (snd c')"
proof (induction es arbitrary: c)
  case Nil
  then show ?case by simp
next
  case (Cons e es)
  from Cons.prems(3) obtain c1 where c1: "step new e c = Inr c1" and r: "run new es c1 = Inr c'"
    by (auto split: sum.splits)
  from Cons.prems(1,2) c1 have "wf (fst c1) \<and> wf (snd c1)"
    using step_wf [of "fst c" "snd c" new e c1] by simp
  with r show ?case using Cons.IH [of c1] by simp
qed

lemma mount_wf: "mount dm st stored = Inr s \<Longrightarrow> wf s"
  unfolding mount_def using welcome_wf by (rule reveal_effect_keeps_wf)

lemma step_ok:
  "wf r \<Longrightarrow> wf s \<Longrightarrow> \<forall>v. e \<noteq> SetRole v \<Longrightarrow> \<exists>c. step new e (r, s) = Inr c"
proof (cases e)
  case (Settle out)
  assume "wf s"
  then show ?thesis
    using render_ok [OF settled_wf [of s out], of r] Settle by auto
next
  case (StarterChanged v)
  show ?thesis
    using reveal_effect_wf [OF welcome_wf [of v s]] StarterChanged by auto
qed (simp_all add: render_ok onKeyChange_wf onRememberChange_wf tick_wf)

lemma run_ok:
  "wf (fst c) \<Longrightarrow> wf (snd c) \<Longrightarrow> \<forall>e\<in>set es. \<forall>v. e \<noteq> SetRole v \<Longrightarrow> \<exists>c'. run new es c = Inr c'"
proof (induction es arbitrary: c)
  case Nil
  then show ?case by simp
next
  case (Cons e es)
  from Cons.prems have "\<exists>c1. step new e (fst c, snd c) = Inr c1"
    by (intro step_ok) simp_all
  then obtain c1 where c1: "step new e c = Inr c1" by auto
  with Cons.prems(1,2) have "wf (fst c1) \<and> wf (snd c1)"
    using step_wf [of "fst c" "snd c" new e c1] by simp
  with Cons.IH [of c1] Cons.prems(3) c1 show ?case by simp
qed

lemma exchange_dispatch:
  assumes "\<not> loading s" and "ai new s = Some c"
  shows "history (exchange new (m, r) s) =
           history s @ [user_msg (compose (role_st s) (case m of None \<Rightarrow> input s | Some t \<Rightarrow> t)),
                        model_msg (reply_text r)]"
    and "\<not> loading (exchange new (m, r) s)"
  by (simp_all add: exchange_def sendMessage_dispatch [OF assms] sendMessage_settled_def)

lemma sendMessage_store:
  "rememberKey (sendMessage new m r s) = rememberKey s \<and>
   storage (sendMessage new m r s) = storage s"
  by (cases "loading r"; cases "ai new r")
    (simp_all add: sendMessage_loading sendMessage_no_ai sendMessage_dispatch)

lemma step_storage_off:
  "\<not> rememberKey s \<Longrightarrow> storage s = None \<Longrightarrow> e \<noteq> RememberChange True \<Longrightarrow>
   step new e (r, s) = Inr c \<Longrightarrow> \<not> rememberKey (snd c) \<and> storage (snd c) = None"
proof (cases e)
  case (Send m)
  assume "\<not> rememberKey s" "storage s = None" "step new e (r, s) = Inr c"
  with Send show ?thesis by (auto simp: sendMessage_store)
next
  case (Settle out)
  assume "\<not> rememberKey s" "storage s = None" "step new e (r, s) = Inr c"
  with Settle show ?thesis
    by (cases out) (auto simp: sendMessage_settled_def split: if_splits dest!: render_Inr)
next
  case (SetRole v)
  assume "\<not> rememberKey s" "storage s = None" "step new e (r, s) = Inr c"
  with SetRole show ?thesis
    by (auto simp: onRoleChange_def split: sum.splits option.splits dest!: render_Inr)
next
  case (RememberChange b)
  assume "\<not> rememberKey s" "storage s = None" "step new e (r, s) = Inr c" "e \<noteq> RememberChange True"
  with RememberChange show ?thesis
    by (auto simp: onRememberChange_def Let_def dest!: render_Inr)
next
  case (StarterChanged v)
  assume "\<not> rememberKey s" "storage s = None" "step new e (r, s) = Inr c"
  with StarterChanged show ?thesis
    by (auto simp: welcome_effect_def Let_def split: if_splits sum.splits dest!: reveal_effect_Inr)
qed (auto simp: onKeyChange_def tick_def Let_def split: option.splits if_splits dest!: render_Inr)

lemma run_storage_off:
  "\<not> rememberKey (snd c) \<Longrightarrow> storage (snd c) = None \<Longrightarrow>
   \<forall>e\<in>set es. e \<noteq> RememberChange True \<Longrightarrow>
   run new es c = Inr c' \<Longrightarrow> \<not> rememberKey (snd c') \<and> storage (snd c') = None"
proof (induction es arbitrary: c)
  case Nil
  then show ?case by simp
next
  case (Cons e es)
  from Cons.prems(4) obtain c1 where c1: "step new e c = Inr c1" and r: "run new es c1 = Inr c'"
    by (auto split: sum.splits)
  from Cons.prems(1,2,3) c1 have "\<not> rememberKey (snd c1) \<and> storage (snd c1) = None"
    using step_storage_off [of "snd c" e new "fst c" c1] by simp
  with Cons.IH [of c1] Cons.prems(3) r show ?case by simp
qed

lemma mount_mounted: "mount [0x67] [] None = Inr mounted"
  by (simp add: mount_def mounted_def reveal_effect_def welcome_effect_def load_key_def
      initial_def greeting_def Let_def)

lemma session_runs: "run accept_all session (mounted, mounted) = Inr session_end"
proof -
  have "wf mounted" using mount_mounted by (rule mount_wf)
  moreover have "\<forall>e\<in>set session. \<forall>v. e \<noteq> SetRole v" by (simp add: session_def)
  ultimately obtain c where "run accept_all session (mounted, mounted) = Inr c"
    using run_ok [of "(mounted, mounted)" session accept_all] by auto
  then show ?thesis by (simp add: session_end_def)
qed

subsection \<open>The guards of sendMessage\<close>

text \<open>
  C1. An input that trims to nothing should make \<^verbatim>\<open>sendMessage\<close> a silent no-op. The
  guard tests the composed content, which always holds the persona prompt and the two
  line feeds, so the blank input of \<open>blank_idle\<close> is dispatched: the user message made of
  the bare prompt joins the history, loading is raised, the buffer is emptied and a request
  goes out.
\<close>

theorem blank_input_is_dispatched:
  "trim (input blank_idle) = [] \<and> \<not> loading blank_idle \<and>
   history (sendMessage accept_all None blank_idle blank_idle) =
     [greeting, user_msg (prompt (roles ! 0) @ [0xA, 0xA])] \<and>
   loading (sendMessage accept_all None blank_idle blank_idle) \<and>
   input (sendMessage accept_all None blank_idle blank_idle) = [] \<and>
   pending (sendMessage accept_all None blank_idle blank_idle) =
     [\<lparr>req_model = [0x67], contents = [greeting, user_msg (prompt (roles ! 0) @ [0xA, 0xA])]\<rparr>]"
proof -
  have b: "trim (input blank_idle) = []" "\<not> loading blank_idle"
    "ai accept_all blank_idle = Some (Client [0x6b])"
    by (simp_all add: session_defs trim_def is_ws_def)
  have f: "history blank_idle = [greeting]" "pending blank_idle = []"
    "model blank_idle = [0x67]" "role_st blank_idle = roles ! 0"
    by (simp_all add: session_defs)
  show ?thesis
    using b f by (simp add: sendMessage_dispatch [OF b(2,3)] compose_def)
qed

text \<open>
  C2, as stated: with no client, \<^verbatim>\<open>sendMessage\<close> sets the error slot. In
  \<open>busy_keyless\<close>, where a request is pending and the key box has been emptied, the
  loading test comes first and the call returns with the error slot still empty.
\<close>

theorem missing_key_while_loading:
  "ai accept_all busy_keyless = None \<and> loading busy_keyless \<and>
   error (sendMessage accept_all (Some [0x48, 0x69]) busy_keyless busy_keyless) = [] \<and>
   key_error \<noteq> []"
proof -
  have "loading busy_keyless" "error busy_keyless = []" "ai accept_all busy_keyless = None"
    by (simp_all add: busy_keyless_def busy_def sendMessage_dispatch [OF idle_fields(1,2)]
        onKeyChange_def ai_def Let_def)
  then show ?thesis
    by (simp add: sendMessage_loading key_error_def)
qed

text \<open>
  C2, amended. With no client (no key, or a key the constructor rejects) and loading
  false in the render the call is made from, \<^verbatim>\<open>sendMessage\<close> changes the error slot and
  nothing else: the slot holds the non-empty missing-key message, the history, the input
  buffer and the loading flag are as before, and no request has been issued.
\<close>

theorem missing_key_sets_error:
  assumes "ai new r = None" and "\<not> loading r"
  shows "sendMessage new msg r s = s\<lparr>error := key_error\<rparr> \<and>
         error (sendMessage new msg r s) = key_error \<and> key_error \<noteq> [] \<and>
         history (sendMessage new msg r s) = history s \<and>
         loading (sendMessage new msg r s) = loading s \<and>
         input (sendMessage new msg r s) = input s \<and>
         pending (sendMessage new msg r s) = pending s"
  using assms by (simp add: sendMessage_no_ai key_error_def)

theorem missing_key_sets_error_witness:
  "ai accept_all keyless = None \<and> \<not> loading keyless \<and>
   error (sendMessage accept_all (Some [0x48, 0x69]) keyless keyless) = key_error \<and>
   history (sendMessage accept_all (Some [0x48, 0x69]) keyless keyless) = history keyless \<and>
   \<not> loading (sendMessage accept_all (Some [0x48, 0x69]) keyless keyless) \<and>
   pending (sendMessage accept_all (Some [0x48, 0x69]) keyless keyless) = pending keyless"
proof -
  have h: "ai accept_all keyless = None" "\<not> loading keyless"
    by (simp_all add: keyless_def session_defs)
  show ?thesis
    using h missing_key_sets_error [OF h, of "Some [0x48, 0x69]" keyless] by simp
qed

subsection \<open>Failure of the call\<close>




text \<open>
  C6. A dispatched send appends, to the history of the render it was called from, the
  user message whose text is the prompt of the persona selected there, two line feeds,
  and the trimmed text of the argument if one was given and of the input buffer
  otherwise; the request that goes out carries the history with that message at its end.
\<close>

theorem dispatched_content:
  assumes "\<not> loading r" and "ai new r = Some c"
  shows "history (sendMessage new msg r s) =
           history r @ [\<lparr>role = User, parts = [\<lparr>text_p = prompt (role_st r) @ [0xA, 0xA] @
              trim (case msg of None \<Rightarrow> input r | Some m \<Rightarrow> m)\<rparr>]\<rparr>] \<and>
         pending (sendMessage new msg r s) =
           pending s @ [\<lparr>req_model = model r, contents = history (sendMessage new msg r s)\<rparr>]"
  by (simp add: sendMessage_dispatch [OF assms] user_msg_def compose_def)

theorem dispatched_content_witness:
  "\<not> loading idle \<and> ai accept_all idle = Some (Client [0x6b]) \<and>
   history (sendMessage accept_all (Some [0x20, 0x48, 0x69, 0xA]) idle idle) =
     [greeting, \<lparr>role = User, parts = [\<lparr>text_p = prompt (roles ! 0) @ [0xA, 0xA, 0x48, 0x69]\<rparr>]\<rparr>] \<and>
   pending (sendMessage accept_all (Some [0x20, 0x48, 0x69, 0xA]) idle idle) =
     [\<lparr>req_model = [0x67], contents =
        [greeting, \<lparr>role = User, parts = [\<lparr>text_p = prompt (roles ! 0) @ [0xA, 0xA, 0x48, 0x69]\<rparr>]\<rparr>]\<rparr>]"
proof -
  have t: "trim [0x20, 0x48, 0x69, 0xA] = [0x48, 0x69]"
    by (simp add: trim_def is_ws_def)
  show ?thesis
    using t idle_fields(1,2,3,4,6,7)
      dispatched_content [OF idle_fields(1,2), of "Some [0x20, 0x48, 0x69, 0xA]" idle]
    by simp
qed

subsection \<open>Two calls from one render\<close>



subsection \<open>The stored key\<close>

text \<open>
  C7. Unticking the remember box erases the stored key. A key change while the box is
  unticked leaves the store as it is, and a key change while it is ticked stores the new
  key. So after unticking, a new key is not stored, and the store stays empty through
  any events that follow as long as the box is not ticked again.
\<close>

theorem remember_key_store:
  "storage (onRememberChange False s) = None \<and> \<not> rememberKey (onRememberChange False s) \<and>
   (\<not> rememberKey s \<longrightarrow> storage (onKeyChange v s) = storage s) \<and>
   (rememberKey s \<longrightarrow> storage (onKeyChange v s) = Some v) \<and>
   storage (onKeyChange v (onRememberChange False s)) = None \<and>
   ((\<forall>e\<in>set es. e \<noteq> RememberChange True) \<and>
    run new es (r, onRememberChange False s) = Inr c \<longrightarrow> storage (snd c) = None)"
proof -
  have off: "\<not> rememberKey (onRememberChange False s)" "storage (onRememberChange False s) = None"
    by (simp_all add: onRememberChange_def)
  have "storage (snd c) = None"
    if "\<forall>e\<in>set es. e \<noteq> RememberChange True" "run new es (r, onRememberChange False s) = Inr c"
    using run_storage_off [of "(r, onRememberChange False s)" es new c] off that by simp
  with off show ?thesis
    by (simp add: onKeyChange_def Let_def)
qed

theorem remember_key_store_witness:
  "rememberKey idle \<and> storage idle = Some [0x6b] \<and>
   storage (onKeyChange [0x7a] idle) = Some [0x7a] \<and>
   \<not> rememberKey forgetful \<and> storage forgetful = None \<and>
   storage (onKeyChange [0x7a] forgetful) = None \<and>
   run accept_all retyping (forgetful, forgetful) =
     Inr (onKeyChange [0x79, 0x7a] ((onKeyChange [0x7a] forgetful)\<lparr>input := [0x48]\<rparr>),
          onKeyChange [0x79, 0x7a] ((onKeyChange [0x7a] forgetful)\<lparr>input := [0x48]\<rparr>)) \<and>
   apiKey (onKeyChange [0x79, 0x7a] ((onKeyChange [0x7a] forgetful)\<lparr>input := [0x48]\<rparr>)) = [0x79, 0x7a] \<and>
   storage (onKeyChange [0x79, 0x7a] ((onKeyChange [0x7a] forgetful)\<lparr>input := [0x48]\<rparr>)) = None"
proof -
  let ?x = "onKeyChange [0x79, 0x7a] ((onKeyChange [0x7a] forgetful)\<lparr>input := [0x48]\<rparr>)"
  have r: "run accept_all retyping (forgetful, forgetful) = Inr (?x, ?x)"
    by (simp add: retyping_def render_def onKeyChange_def Let_def)
  have e: "\<forall>e\<in>set retyping. e \<noteq> RememberChange True"
    by (simp add: retyping_def)
  have a: "apiKey ?x = [0x79, 0x7a]"
    by (simp add: onKeyChange_def Let_def)
  show ?thesis
    using r e a idle_fields(10,11)
      remember_key_store [of idle "[0x7a]" retyping accept_all forgetful "(?x, ?x)"]
      remember_key_store [of forgetful "[0x7a]" "[]" accept_all forgetful "(forgetful, forgetful)"]
    by (simp add: forgetful_def)
qed

subsection \<open>Mounting\<close>

text \<open>
  C9. Mounting succeeds and leaves exactly one message in the history, the greeting, whose
  role is the model's; a key found in the store is the content of the key field, and
  with nothing stored the field is empty.
\<close>

theorem mount_state:
  "\<exists>s. mount dm st stored = Inr s \<and> history s = [greeting] \<and> length (history s) = 1 \<and>
        role greeting = Model \<and>
        (\<forall>k. stored = Some k \<longrightarrow> apiKey s = k) \<and> (stored = None \<longrightarrow> apiKey s = [])"
  by (cases stored)
    (auto simp: mount_def reveal_effect_def welcome_effect_def load_key_def initial_def
      greeting_def Let_def)

theorem mount_state_witness:
  "\<exists>s. mount [0x67] [] (Some [0x6b]) = Inr s \<and> history s = [greeting] \<and> apiKey s = [0x6b]"
  using mount_state [of "[0x67]" "[]" "Some [0x6b]"] by auto

subsection \<open>The reveal\<close>

text \<open>
  C8, as stated: the displayed text is empty when a reveal starts and its length never
  decreases within the cycle. In \<open>reveal_start\<close> a reply has arrived while the greeting
  was being revealed: the interval for the reply is installed with its cursor at zero,
  the buffer still holds the two code units shown of the greeting, and the first tick
  cuts it to nothing.
\<close>

theorem reveal_start_keeps_old_text:
  "timer reveal_start = Some \<lparr>itv_text = [0x4f], itv_i = 0, itv_cleared = False\<rparr> \<and>
   displayedText reveal_start = [0xd83d, 0xdc4b] \<and>
   displayedText (ticks 1 reveal_start) = []"
  by (simp add: reveal_start_def early_reply_def mounted_def render_def reveal_effect_def
      tick_def sendMessage_def sendMessage_settled_def onKeyChange_def welcome_effect_def
      load_key_def initial_def greeting_def compose_def user_msg_def model_msg_def
      reply_text_def accept_all_def ai_def Let_def)

text \<open>
  C8, amended. When the reveal effect runs on a state that is not loading and whose last
  message is the model's, it installs an interval with the cursor at zero on the text of
  that message's first part and leaves the displayed text as it was. Tick number
  \<open>k + 1\<close> of that interval sets the displayed text to the prefix of length \<open>k\<close>, so the
  first tick empties it and from then on its length never decreases from one tick to a
  later one; the cursor is then \<open>k + 1\<close>, and the interval is cleared exactly when that
  exceeds the length of the text, at which point the displayed text is the whole text and
  later ticks change nothing.
\<close>

theorem reveal_cycle:
  assumes "\<not> loading s0" and "history s0 \<noteq> []" and "role (last (history s0)) = Model"
    and "parts (last (history s0)) = p # ps" and "reveal_effect s0 = Inr s"
  shows "timer s = Some \<lparr>itv_text = text_p p, itv_i = 0, itv_cleared = False\<rparr> \<and>
         displayedText s = displayedText s0 \<and>
         displayedText (ticks 1 s) = [] \<and>
         (\<forall>k. displayedText (ticks (Suc k) s) = take k (text_p p)) \<and>
         (\<forall>j k. j \<le> k \<longrightarrow>
            length (displayedText (ticks (Suc j) s)) \<le> length (displayedText (ticks (Suc k) s))) \<and>
         (\<forall>k. timer (ticks (Suc k) s) =
            Some \<lparr>itv_text = text_p p, itv_i = min (Suc k) (length (text_p p) + 1),
                  itv_cleared = (length (text_p p) < Suc k)\<rparr>) \<and>
         displayedText (ticks (length (text_p p) + 1) s) = text_p p \<and>
         (\<forall>k. length (text_p p) < k \<longrightarrow> ticks k s = ticks (length (text_p p) + 1) s)"
proof -
  let ?t = "text_p p"
  from assms have tm: "timer s = Some \<lparr>itv_text = ?t, itv_i = 0, itv_cleared = False\<rparr>"
    by (auto simp: reveal_effect_def Let_def)
  have shown: "displayedText (ticks (Suc k) s) = take k ?t" for k
    using ticks_running [OF tm, of k] by simp
  have cursor: "timer (ticks (Suc k) s) =
      Some \<lparr>itv_text = ?t, itv_i = min (Suc k) (length ?t + 1), itv_cleared = (length ?t < Suc k)\<rparr>"
    for k
    using ticks_running [OF tm, of k] by simp
  have split: "ticks (a + b) x = ticks a (ticks b x)" for a b x
    by (induction b arbitrary: x) simp_all
  have stop: "ticks k s = ticks (length ?t + 1) s" if "length ?t < k" for k
  proof -
    define d where "d = k - (length ?t + 1)"
    with that have k: "k = d + (length ?t + 1)" by simp
    have "timer (ticks (Suc (length ?t)) s) =
        Some \<lparr>itv_text = ?t, itv_i = length ?t + 1, itv_cleared = True\<rparr>"
      unfolding cursor by simp
    then have "ticks d (ticks (Suc (length ?t)) s) = ticks (Suc (length ?t)) s"
      by (rule tick_cleared) simp
    then show ?thesis
      unfolding k split by simp
  qed
  show ?thesis
  proof (intro conjI allI impI)
    show "timer s = Some \<lparr>itv_text = ?t, itv_i = 0, itv_cleared = False\<rparr>"
      by (rule tm)
    show "displayedText s = displayedText s0"
      using assms(5) by (auto dest: reveal_effect_Inr)
    show "displayedText (ticks 1 s) = []"
      using shown [of 0] by simp
    show "displayedText (ticks (Suc k) s) = take k ?t" for k
      by (rule shown)
    show "length (displayedText (ticks (Suc j) s)) \<le> length (displayedText (ticks (Suc k) s))"
      if "j \<le> k" for j k
      unfolding shown using that by simp
    show "timer (ticks (Suc k) s) =
        Some \<lparr>itv_text = ?t, itv_i = min (Suc k) (length ?t + 1), itv_cleared = (length ?t < Suc k)\<rparr>"
      for k
      by (rule cursor)
    show "displayedText (ticks (length ?t + 1) s) = ?t"
      using shown [of "length ?t"] by simp
    show "ticks k s = ticks (length ?t + 1) s" if "length ?t < k" for k
      using that by (rule stop)
  qed
qed

theorem reveal_cycle_witness:
  "\<not> loading answered \<and> history answered \<noteq> [] \<and> role (last (history answered)) = Model \<and>
   parts (last (history answered)) = [\<lparr>text_p = [0x4f, 0x4b]\<rparr>] \<and>
   reveal_effect answered =
     Inr (answered\<lparr>timer := Some \<lparr>itv_text = [0x4f, 0x4b], itv_i = 0, itv_cleared = False\<rparr>\<rparr>) \<and>
   displayedText (ticks 1
     (answered\<lparr>timer := Some \<lparr>itv_text = [0x4f, 0x4b], itv_i = 0, itv_cleared = False\<rparr>\<rparr>)) = [] \<and>
   displayedText (ticks (Suc 1)
     (answered\<lparr>timer := Some \<lparr>itv_text = [0x4f, 0x4b], itv_i = 0, itv_cleared = False\<rparr>\<rparr>)) = [0x4f] \<and>
   displayedText (ticks (Suc 2)
     (answered\<lparr>timer := Some \<lparr>itv_text = [0x4f, 0x4b], itv_i = 0, itv_cleared = False\<rparr>\<rparr>)) = [0x4f, 0x4b] \<and>
   timer (ticks (Suc 2)
     (answered\<lparr>timer := Some \<lparr>itv_text = [0x4f, 0x4b], itv_i = 0, itv_cleared = False\<rparr>\<rparr>)) =
     Some \<lparr>itv_text = [0x4f, 0x4b], itv_i = 3, itv_cleared = True\<rparr>"
proof -
  let ?s = "answered\<lparr>timer := Some \<lparr>itv_text = [0x4f, 0x4b], itv_i = 0, itv_cleared = False\<rparr>\<rparr>"
  note d = exchange_dispatch [OF idle_fields(1,2), of "Some [0x48, 0x69]" "Some [0x4f, 0x4b]"]
  have h: "\<not> loading answered" "history answered \<noteq> []" "role (last (history answered)) = Model"
    "parts (last (history answered)) = [\<lparr>text_p = [0x4f, 0x4b]\<rparr>]"
    using d(1,2) by (simp_all add: answered_def model_msg_def reply_text_def)
  have r: "reveal_effect answered = Inr ?s"
    using h by (simp add: reveal_effect_def Let_def)
  note c = reveal_cycle [OF h r]
  note first = c [THEN conjunct2, THEN conjunct2, THEN conjunct1]
  note shown = c [THEN conjunct2, THEN conjunct2, THEN conjunct2, THEN conjunct1, THEN spec]
  note cursor = c [THEN conjunct2, THEN conjunct2, THEN conjunct2, THEN conjunct2,
    THEN conjunct2, THEN conjunct1, THEN spec]
  have "displayedText (ticks (Suc 1) ?s) = [0x4f]"
    unfolding shown by simp
  moreover have "displayedText (ticks (Suc 2) ?s) = [0x4f, 0x4b]"
    unfolding shown by simp
  moreover have "timer (ticks (Suc 2) ?s) =
      Some \<lparr>itv_text = [0x4f, 0x4b], itv_i = 3, itv_cleared = True\<rparr>"
    unfolding cursor by simp
  ultimately show ?thesis using h r first by simp
qed

subsection \<open>One part per message\<close>

text \<open>
  C10. The greeting, every user message and every model reply are built with exactly one
  part, and in every state that a run of events reaches from mounting every message of
  the history has exactly one part. There the reveal effect finds the first part it
  reads, and so does every event that runs it: each event other than a role change
  succeeds.
\<close>

theorem one_part_per_message:
  assumes "mount dm st stored = Inr s0" and "run new es (s0, s0) = Inr (r, s)"
  shows "length (parts greeting) = 1 \<and> length (parts (user_msg t)) = 1 \<and>
         length (parts (model_msg t)) = 1 \<and>
         list_all (\<lambda>m. length (parts m) = 1) (history s) \<and>
         (\<exists>s'. reveal_effect s = Inr s') \<and>
         (\<forall>e. (\<forall>v. e \<noteq> SetRole v) \<longrightarrow> (\<exists>c. step new e (r, s) = Inr c))"
proof -
  from assms(1) have "wf s0" by (rule mount_wf)
  with assms(2) have w: "wf r" "wf s"
    using run_wf [of "(s0, s0)" new es "(r, s)"] by simp_all
  then have "list_all (\<lambda>m. length (parts m) = 1) (history s)"
    by (simp add: wf_def)
  moreover from w(2) have "\<exists>s'. reveal_effect s = Inr s'"
    by (rule reveal_effect_wf)
  moreover from w have "\<forall>e. (\<forall>v. e \<noteq> SetRole v) \<longrightarrow> (\<exists>c. step new e (r, s) = Inr c)"
    by (blast intro: step_ok)
  ultimately show ?thesis
    by (simp add: greeting_def user_msg_def model_msg_def)
qed

theorem one_part_per_message_witness:
  "mount [0x67] [] None = Inr mounted \<and>
   run accept_all session (mounted, mounted) = Inr (fst session_end, snd session_end) \<and>
   list_all (\<lambda>m. length (parts m) = 1) (history (snd session_end)) \<and>
   (\<exists>s'. reveal_effect (snd session_end) = Inr s') \<and>
   (\<exists>c. step accept_all (StarterChanged []) (fst session_end, snd session_end) = Inr c)"
proof -
  have sr: "run accept_all session (mounted, mounted) = Inr (fst session_end, snd session_end)"
    using session_runs by simp
  note c = one_part_per_message [OF mount_mounted sr, of "[]"]
  note parts = c [THEN conjunct2, THEN conjunct2, THEN conjunct2, THEN conjunct1]
  note effect = c [THEN conjunct2, THEN conjunct2, THEN conjunct2, THEN conjunct2, THEN conjunct1]
  note steps = c [THEN conjunct2, THEN conjunct2, THEN conjunct2, THEN conjunct2, THEN conjunct2,
    THEN spec, of "StarterChanged []"]
  have "\<exists>c. step accept_all (StarterChanged []) (fst session_end, snd session_end) = Inr c"
    using steps by simp
  with parts effect mount_mounted sr show ?thesis by simp
qed

end
